theory Spec2Isabelle
  imports Main
begin

section \<open>kv-sqlite: a key-value store on one SQLite table\<close>

text \<open>
  The program (\<^verbatim>\<open>src/index.ts\<close>) is a class \<^verbatim>\<open>KV\<close> whose methods each run one SQL
  statement against the table \<^verbatim>\<open>kv\<close>. The behaviour of the store is therefore the
  behaviour of these statements together with the three triggers of the schema. The
  table is modelled as the list of its rows, a statement as a function from the table
  (and the clock) to its result and the new table.

  What the model takes from the SQLite engine:
  \<^item> \<^verbatim>\<open>unixepoch()\<close> is the clock in whole seconds; one statement reads one value of it.
    \<^verbatim>\<open>Math.floor(Date.now() / 1000)\<close> in \<^verbatim>\<open>set\<close> reads the same clock, so a call of a
    method has one parameter \<open>now\<close>.
  \<^item> A row trigger runs once for each row the statement inserts, deletes or updates; a
    statement that touches no row runs no trigger.
  \<^item> A \<^verbatim>\<open>BEFORE INSERT\<close> trigger runs before the uniqueness check of the insert.
  \<^item> An insert that violates the primary key fails with
    \<^verbatim>\<open>SQLITE_CONSTRAINT_PRIMARYKEY\<close> and the whole statement, the work of its triggers
    included, is undone (conflict resolution ABORT). \<^verbatim>\<open>REPLACE INTO\<close> deletes the
    conflicting row instead and then inserts; the columns that the statement does not
    name get their defaults.
  \<^item> Triggers do not fire themselves again (\<^verbatim>\<open>recursive_triggers\<close> is off, the default),
    so the \<^verbatim>\<open>UPDATE\<close> inside \<^verbatim>\<open>update_updated_at_on_update\<close> runs once.
  \<^item> \<^verbatim>\<open>RETURNING\<close> yields the values as the top-level statement sees them: for an
    \<^verbatim>\<open>UPDATE\<close> the row after its own \<^verbatim>\<open>SET\<close>, before any change an \<^verbatim>\<open>AFTER\<close>
    trigger makes (SQLite documentation, \<^emph>\<open>RETURNING\<close>, limitations and caveats);
    for a \<^verbatim>\<open>DELETE\<close> the row as it was.
  \<^item> \<^verbatim>\<open>Statement.get\<close> returns the first row of the result, or \<^verbatim>\<open>null\<close>.

  Integers (the counter, the timestamps, \<^verbatim>\<open>ttl\<close>) are mathematical integers: the
  model covers the values that both a 64-bit SQLite integer and a JavaScript number
  hold exactly. A \<^verbatim>\<open>Date\<close> is its number of milliseconds since the epoch.
\<close>

subsection \<open>Rows and results\<close>

text \<open>The interface \<^verbatim>\<open>Result\<close>: the five columns every statement selects or returns.\<close>

record result =
  json_data :: "string option"
  counter :: int
  expires_at :: "int option"
  created_at :: int
  updated_at :: int

text \<open>A row of the table \<^verbatim>\<open>kv\<close>: the five columns and the primary key.\<close>

record row = result +
  key :: string

type_synonym table = "row list"

text \<open>The type \<^verbatim>\<open>InsertParams\<close>.\<close>

record InsertParams =
  p_key :: string
  p_json_data :: "string option"
  p_expires_at :: "int option"

text \<open>The options of \<^verbatim>\<open>set\<close>; \<open>None\<close> is a property that is missing or undefined.\<close>

record opts =
  replace :: "bool option"
  ttl :: "int option"
  expiresAt :: "int option"

text \<open>The object \<^verbatim>\<open>format\<close> returns; \<open>data = None\<close> is \<^verbatim>\<open>null\<close>.\<close>

record 'd entry =
  data :: "'d option"
  counter :: int
  expiresAt :: "int option"
  createdAt :: int
  updatedAt :: int

text \<open>What a statement can throw; \<^verbatim>\<open>SQLiteError\<close> carries its \<^verbatim>\<open>code\<close>.\<close>

datatype thrown = SQLiteError string | OtherError string

subsection \<open>The schema: liveness and the triggers\<close>

text \<open>\<^verbatim>\<open>expires_at IS NULL OR expires_at > unixepoch()\<close>\<close>

definition is_live :: "int \<Rightarrow> row \<Rightarrow> bool" where
  "is_live now r = (case expires_at r of None \<Rightarrow> True | Some e \<Rightarrow> e > now)"

text \<open>\<^verbatim>\<open>expires_at IS NOT NULL AND expires_at <= unixepoch()\<close>\<close>

definition is_expired :: "int \<Rightarrow> row \<Rightarrow> bool" where
  "is_expired now r = (case expires_at r of None \<Rightarrow> False | Some e \<Rightarrow> e \<le> now)"

text \<open>
  The bodies of the two cleanup triggers are the same statement,
  \<^verbatim>\<open>DELETE FROM kv WHERE expires_at IS NOT NULL AND expires_at <= unixepoch()\<close>.
  (The delete inside \<open>cleanup_expired_on_insert\<close> fires \<open>cleanup_expired_on_delete\<close>
  for each row it removes, which removes the same rows.)
\<close>

definition cleanup_expired_on_insert :: "int \<Rightarrow> table \<Rightarrow> table" where
  "cleanup_expired_on_insert now t = filter (\<lambda>r. \<not> is_expired now r) t"

definition cleanup_expired_on_delete :: "int \<Rightarrow> table \<Rightarrow> table" where
  "cleanup_expired_on_delete now t = filter (\<lambda>r. \<not> is_expired now r) t"

text \<open>\<^verbatim>\<open>UPDATE kv SET updated_at = unixepoch() WHERE key = NEW.key\<close>\<close>

definition update_updated_at_on_update :: "int \<Rightarrow> string \<Rightarrow> table \<Rightarrow> table" where
  "update_updated_at_on_update now new_key t =
     map (\<lambda>r. if key r = new_key then r\<lparr>updated_at := now\<rparr> else r) t"

subsection \<open>The prepared statements\<close>

text \<open>The columns \<^verbatim>\<open>json_data, counter, expires_at, created_at, updated_at\<close> of a row.\<close>

definition returning :: "row \<Rightarrow> result" where
  "returning r =
     \<lparr>json_data = json_data r, result.counter = result.counter r,
      expires_at = expires_at r, created_at = created_at r, updated_at = updated_at r\<rparr>"

definition statements_select :: "int \<Rightarrow> table \<Rightarrow> string \<Rightarrow> result option" where
  "statements_select now t k =
     (case filter (\<lambda>r. key r = k \<and> is_live now r) t of
        [] \<Rightarrow> None
      | r # _ \<Rightarrow> Some (returning r))"

definition statements_deleteSelect :: "int \<Rightarrow> table \<Rightarrow> string \<Rightarrow> result option \<times> table" where
  "statements_deleteSelect now t k =
     (case filter (\<lambda>r. key r = k \<and> is_live now r) t of
        [] \<Rightarrow> (None, t)
      | r # _ \<Rightarrow>
          (Some (returning r),
           filter (\<lambda>r. \<not> (key r = k \<and> is_live now r)) (cleanup_expired_on_delete now t)))"

text \<open>
  The row an insert of \<^verbatim>\<open>(key, json_data, expires_at)\<close> creates: \<^verbatim>\<open>counter\<close> defaults to
  0, \<^verbatim>\<open>created_at\<close> and \<^verbatim>\<open>updated_at\<close> to \<^verbatim>\<open>unixepoch()\<close>.
\<close>

definition inserted_row :: "int \<Rightarrow> InsertParams \<Rightarrow> row" where
  "inserted_row now p =
     \<lparr>json_data = p_json_data p, result.counter = 0, expires_at = p_expires_at p,
      created_at = now, updated_at = now, key = p_key p\<rparr>"

text \<open>
  The two inserts. \<open>fault\<close> is a failure of the engine that does not come from the
  table (busy, I/O): the statement throws it and changes nothing. A thrown statement
  leaves the table as it was, so only the error is returned.
\<close>

definition statements_insertIgnore ::
  "int \<Rightarrow> thrown option \<Rightarrow> table \<Rightarrow> InsertParams \<Rightarrow> thrown + table" where
  "statements_insertIgnore now fault t p =
     (case fault of
        Some e \<Rightarrow> Inl e
      | None \<Rightarrow>
          (let t' = cleanup_expired_on_insert now t
           in if p_key p \<in> set (map key t')
              then Inl (SQLiteError ''SQLITE_CONSTRAINT_PRIMARYKEY'')
              else Inr (t' @ [inserted_row now p])))"

definition statements_insertReplace ::
  "int \<Rightarrow> thrown option \<Rightarrow> table \<Rightarrow> InsertParams \<Rightarrow> thrown + table" where
  "statements_insertReplace now fault t p =
     (case fault of
        Some e \<Rightarrow> Inl e
      | None \<Rightarrow>
          (let t' = cleanup_expired_on_insert now t
           in Inr (filter (\<lambda>r. key r \<noteq> p_key p) t' @ [inserted_row now p])))"

definition statements_deleteSingle :: "int \<Rightarrow> table \<Rightarrow> string \<Rightarrow> table" where
  "statements_deleteSingle now t k =
     (if k \<in> set (map key t)
      then filter (\<lambda>r. key r \<noteq> k) (cleanup_expired_on_delete now t)
      else t)"

text \<open>\<^verbatim>\<open>DELETE FROM kv WHERE key IN (?,...,?)\<close>, the query \<^verbatim>\<open>del\<close> builds.\<close>

definition deleteMultipleQuery :: "int \<Rightarrow> table \<Rightarrow> string list \<Rightarrow> table" where
  "deleteMultipleQuery now t ks =
     (if list_ex (\<lambda>r. key r \<in> set ks) t
      then filter (\<lambda>r. key r \<notin> set ks) (cleanup_expired_on_delete now t)
      else t)"

text \<open>
  \<^verbatim>\<open>UPDATE kv SET counter = COALESCE(counter, 0) + $delta WHERE key = $key AND (live)
  RETURNING ...\<close>: the column is \<^verbatim>\<open>NOT NULL\<close>, so \<^verbatim>\<open>COALESCE\<close> returns the counter.
  The result is the row after the \<^verbatim>\<open>SET\<close>; the trigger then stamps the stored row.
\<close>

definition statements_addToCounter ::
  "int \<Rightarrow> table \<Rightarrow> string \<Rightarrow> int \<Rightarrow> result option \<times> table" where
  "statements_addToCounter now t k delta =
     (case filter (\<lambda>r. key r = k \<and> is_live now r) t of
        [] \<Rightarrow> (None, t)
      | r # _ \<Rightarrow>
          (Some (returning (r\<lparr>result.counter := result.counter r + delta\<rparr>)),
           update_updated_at_on_update now k
             (map (\<lambda>r. if key r = k \<and> is_live now r
                        then r\<lparr>result.counter := result.counter r + delta\<rparr> else r) t)))"

subsection \<open>The methods of the class\<close>

text \<open>
  \<^verbatim>\<open>format\<close>; \<open>parse\<close> is \<^verbatim>\<open>JSON.parse\<close>. \<^verbatim>\<open>result.expires_at ? ... : null\<close> tests
  truthiness, so 0 gives \<^verbatim>\<open>null\<close> as \<^verbatim>\<open>null\<close> does.
\<close>

definition format :: "(string \<Rightarrow> 'd) \<Rightarrow> result option \<Rightarrow> 'd entry option" where
  "format parse res =
     (case res of
        None \<Rightarrow> None
      | Some r \<Rightarrow>
          Some \<lparr>data = (case json_data r of None \<Rightarrow> None | Some s \<Rightarrow> Some (parse s)),
                counter = result.counter r,
                expiresAt = (case expires_at r of
                               None \<Rightarrow> None
                             | Some e \<Rightarrow> if e = 0 then None else Some (e * 1000)),
                createdAt = created_at r * 1000,
                updatedAt = updated_at r * 1000\<rparr>)"

definition get :: "(string \<Rightarrow> 'd) \<Rightarrow> int \<Rightarrow> table \<Rightarrow> string \<Rightarrow> 'd entry option" where
  "get parse now t k = format parse (statements_select now t k)"

definition getDel ::
  "(string \<Rightarrow> 'd) \<Rightarrow> int \<Rightarrow> table \<Rightarrow> string \<Rightarrow> 'd entry option \<times> table" where
  "getDel parse now t k =
     (let (res, t') = statements_deleteSelect now t k in (format parse res, t'))"

text \<open>
  \<^verbatim>\<open>set\<close>; \<open>stringify\<close> is \<^verbatim>\<open>JSON.stringify\<close>, \<open>d = None\<close> is \<^verbatim>\<open>data === null\<close>
  (a payload for which \<^verbatim>\<open>JSON.stringify\<close> returns no string is outside the model).
  \<^verbatim>\<open>ttl\<close> is a whole number of seconds. The result is the boolean returned or the
  error thrown, and the table afterwards.
\<close>

definition set_kv ::
  "('d \<Rightarrow> string) \<Rightarrow> int \<Rightarrow> thrown option \<Rightarrow> table \<Rightarrow> string \<Rightarrow> 'd option \<Rightarrow> opts
     \<Rightarrow> (thrown + bool) \<times> table" where
  "set_kv stringify now fault t k d os =
     (let expiresAt = (case ttl os of
                         Some s \<Rightarrow> Some (now + s)
                       | None \<Rightarrow> (case opts.expiresAt os of
                                    Some ms \<Rightarrow> Some (ms div 1000)
                                  | None \<Rightarrow> None));
          jsonData = (case d of None \<Rightarrow> None | Some v \<Rightarrow> Some (stringify v));
          p = \<lparr>p_key = k, p_json_data = jsonData, p_expires_at = expiresAt\<rparr>
      in if replace os = Some True
         then (case statements_insertReplace now fault t p of
                 Inl e \<Rightarrow> (Inl e, t)
               | Inr t' \<Rightarrow> (Inr True, t'))
         else (case statements_insertIgnore now fault t p of
                 Inr t' \<Rightarrow> (Inr True, t')
               | Inl e \<Rightarrow>
                   (case e of
                      SQLiteError c \<Rightarrow>
                        if c = ''SQLITE_CONSTRAINT_PRIMARYKEY'' then (Inr False, t)
                        else (Inl e, t)
                    | OtherError _ \<Rightarrow> (Inl e, t))))"

definition del :: "int \<Rightarrow> table \<Rightarrow> string list \<Rightarrow> table" where
  "del now t keyOrKeys =
     (case keyOrKeys of
        [] \<Rightarrow> t
      | [k] \<Rightarrow> statements_deleteSingle now t k
      | _ \<Rightarrow> deleteMultipleQuery now t keyOrKeys)"

definition addToCounter ::
  "(string \<Rightarrow> 'd) \<Rightarrow> int \<Rightarrow> table \<Rightarrow> string \<Rightarrow> int \<Rightarrow> 'd entry option \<times> table" where
  "addToCounter parse now t k delta =
     (let (res, t') = statements_addToCounter now t k delta in (format parse res, t'))"

definition increment ::
  "(string \<Rightarrow> 'd) \<Rightarrow> int \<Rightarrow> table \<Rightarrow> string \<Rightarrow> 'd entry option \<times> table" where
  "increment parse now t k = addToCounter parse now t k 1"

definition decrement ::
  "(string \<Rightarrow> 'd) \<Rightarrow> int \<Rightarrow> table \<Rightarrow> string \<Rightarrow> 'd entry option \<times> table" where
  "decrement parse now t k = addToCounter parse now t k (- 1)"

subsection \<open>Sequences of calls\<close>

text \<open>
  A call of a method, and its effect on the table. A table that the class alone has
  written is one reached from the empty table by calls at times that do not decrease.
\<close>

datatype 'd call =
    Get string
  | GetDel string
  | Set string "'d option" opts "thrown option"
  | Del "string list"
  | Increment string
  | Decrement string

fun step :: "('d \<Rightarrow> string) \<Rightarrow> (string \<Rightarrow> 'd) \<Rightarrow> int \<Rightarrow> 'd call \<Rightarrow> table \<Rightarrow> table" where
  "step stringify parse now (Get k) t = t"
| "step stringify parse now (GetDel k) t = snd (getDel parse now t k)"
| "step stringify parse now (Set k d os fault) t = snd (set_kv stringify now fault t k d os)"
| "step stringify parse now (Del ks) t = del now t ks"
| "step stringify parse now (Increment k) t = snd (increment parse now t k)"
| "step stringify parse now (Decrement k) t = snd (decrement parse now t k)"

fun run :: "('d \<Rightarrow> string) \<Rightarrow> (string \<Rightarrow> 'd) \<Rightarrow> (int \<times> 'd call) list \<Rightarrow> table \<Rightarrow> table" where
  "run stringify parse [] t = t"
| "run stringify parse ((now, c) # cs) t = run stringify parse cs (step stringify parse now c t)"

text \<open>The primary key: no two rows of the table have the same key.\<close>

definition wf_table :: "table \<Rightarrow> bool" where
  "wf_table t = distinct (map key t)"


text \<open>
  The row a successful \<^verbatim>\<open>set\<close> writes: the payload serialised, the expiration computed
  from the options, the defaults of the other columns.
\<close>

definition set_row :: "('d \<Rightarrow> string) \<Rightarrow> int \<Rightarrow> string \<Rightarrow> 'd option \<Rightarrow> opts \<Rightarrow> row" where
  "set_row stringify now k d os =
     \<lparr>json_data = map_option stringify d, result.counter = 0,
      expires_at = (case ttl os of
                      Some s \<Rightarrow> Some (now + s)
                    | None \<Rightarrow> map_option (\<lambda>ms. ms div 1000) (opts.expiresAt os)),
      created_at = now, updated_at = now, key = k\<rparr>"

text \<open>
  A table for the examples: at time 100 the row of \<open>a\<close> is expired and still stored,
  the row of \<open>b\<close> never expires, the row of \<open>c\<close> expires at 200.
\<close>

definition row_a :: row where
  "row_a = \<lparr>json_data = Some ''1'', result.counter = 0, expires_at = Some 50,
       created_at = 10, updated_at = 10, key = ''a''\<rparr>"

definition row_b :: row where
  "row_b = \<lparr>json_data = Some ''2'', result.counter = 3, expires_at = None,
       created_at = 20, updated_at = 30, key = ''b''\<rparr>"

definition row_c :: row where
  "row_c = \<lparr>json_data = None, result.counter = 7, expires_at = Some 200,
       created_at = 40, updated_at = 40, key = ''c''\<rparr>"

definition ex_table :: table where
  "ex_table = [row_a, row_b, row_c]"

text \<open>A call of \<^verbatim>\<open>set\<close> with no options.\<close>

definition no_opts :: opts where
  "no_opts = \<lparr>replace = None, ttl = None, opts.expiresAt = None\<rparr>"

text \<open>Calls of the class that build the example table from the empty one.\<close>

definition ex_calls :: "(int \<times> string call) list" where
  "ex_calls =
     [(10, Set ''a'' (Some ''1'') \<lparr>replace = None, ttl = Some 40, opts.expiresAt = None\<rparr> None),
      (20, Set ''b'' (Some ''2'') no_opts None),
      (25, Increment ''b''), (25, Increment ''b''), (30, Increment ''b''),
      (40, Set ''c'' None \<lparr>replace = None, ttl = None, opts.expiresAt = Some 200000\<rparr> None),
      (40, Increment ''c''), (40, Increment ''c''), (40, Increment ''c''), (40, Increment ''c''),
      (40, Increment ''c''), (40, Increment ''c''), (40, Increment ''c'')]"

text \<open>Whether a call is a \<^verbatim>\<open>set\<close> on the key \<open>k\<close>.\<close>

fun writes_key :: "'d call \<Rightarrow> string \<Rightarrow> bool" where
  "writes_key (Set k' d os fault) k = (k' = k)"
| "writes_key c k = False"

text \<open>
  Every row was created no later than it was last updated, and last updated no later
  than \<open>now\<close>.
\<close>

definition timestamps_ok :: "int \<Rightarrow> table \<Rightarrow> bool" where
  "timestamps_ok now t = list_all (\<lambda>r. created_at r \<le> updated_at r \<and> updated_at r \<le> now) t"

text \<open>What a call adds to the counter of its key when the entry is live.\<close>

fun counter_delta :: "'d call \<Rightarrow> int" where
  "counter_delta (Increment k) = 1"
| "counter_delta (Decrement k) = - 1"
| "counter_delta c = 0"

section \<open>Basic facts\<close>

lemma is_live_not_expired: "is_live now r = (\<not> is_expired now r)"
  by (auto simp: is_live_def is_expired_def split: option.splits)

lemma is_live_iff:
  "is_live now r = (expires_at r = None \<or> (\<exists>e. expires_at r = Some e \<and> now < e))"
  by (auto simp: is_live_def split: option.splits)

lemma is_expired_iff:
  "is_expired now r = (\<exists>e. expires_at r = Some e \<and> e \<le> now)"
  by (auto simp: is_expired_def split: option.splits)

lemma wf_ex_table: "wf_table ex_table"
  by (simp add: ex_table_def row_a_def row_b_def row_c_def wf_table_def row_a_def row_b_def row_c_def)

text \<open>Under the primary key, a condition on the key selects at most the one row.\<close>

lemma filter_key_unique:
  assumes "distinct (map key t)" "r \<in> set t"
  shows "filter (\<lambda>x. key x = key r \<and> P x) t = (if P r then [r] else [])"
  using assms
proof (induction t)
  case Nil
  then show ?case by simp
next
  case (Cons a t)
  show ?case
  proof (cases "a = r")
    case True
    with Cons.prems have "\<forall>x\<in>set t. key x \<noteq> key r" by (auto simp: image_iff)
    then have "filter (\<lambda>x. key x = key r \<and> P x) t = []"
      by (simp add: filter_empty_conv)
    with True show ?thesis by simp
  next
    case False
    with Cons.prems have "r \<in> set t" "key a \<noteq> key r" "distinct (map key t)"
      by (auto simp: image_iff)
    with Cons.IH show ?thesis by simp
  qed
qed

lemma filter_key_absent:
  "\<forall>r\<in>set t. key r \<noteq> k \<Longrightarrow> filter (\<lambda>x. key x = k \<and> P x) t = []"
  by (simp add: filter_empty_conv)

lemma ex_table_rows: "ex_table = [row_a, row_b, row_c]"
  by (simp add: ex_table_def)

lemma ex_table_reachable: "run (\<lambda>s. s) (\<lambda>s. s) ex_calls [] = ex_table"
  by (simp add: ex_calls_def ex_table_def row_a_def row_b_def row_c_def no_opts_def
      set_kv_def statements_insertIgnore_def cleanup_expired_on_insert_def inserted_row_def
      is_expired_def is_live_def increment_def addToCounter_def statements_addToCounter_def
      update_updated_at_on_update_def)

lemma wf_table_unique:
  "wf_table t \<Longrightarrow> r \<in> set t \<Longrightarrow> r' \<in> set t \<Longrightarrow> key r' = key r \<Longrightarrow> r' = r"
  by (auto simp: wf_table_def distinct_map inj_on_def)

lemma is_live_mono: "now \<le> now' \<Longrightarrow> is_live now' r \<Longrightarrow> is_live now r"
  by (auto simp: is_live_def split: option.splits)

lemma is_live_cong: "expires_at r' = expires_at r \<Longrightarrow> is_live now r' = is_live now r"
  by (simp add: is_live_def)

lemma no_live_filter: "(filter (\<lambda>r. key r = k \<and> is_live now r) t = []) = (\<not> (\<exists>r\<in>set t. key r = k \<and> is_live now r))"
  by (auto simp: filter_empty_conv)

lemma format_Some: "format parse (Some x) \<noteq> None"
  by (simp add: format_def)


subsection \<open>What \<open>set\<close> does to the table\<close>

lemma set_kv_replace:
  "replace os = Some True \<Longrightarrow>
     set_kv stringify now None t k d os =
       (Inr True, filter (\<lambda>r. key r \<noteq> k \<and> \<not> is_expired now r) t @ [set_row stringify now k d os])"
  by (cases d; cases "ttl os"; cases "opts.expiresAt os")
     (simp_all add: set_kv_def statements_insertReplace_def cleanup_expired_on_insert_def
        inserted_row_def set_row_def conj_commute)

lemma set_kv_ignore:
  "replace os \<noteq> Some True \<Longrightarrow>
     set_kv stringify now None t k d os =
       (if \<exists>r\<in>set t. key r = k \<and> is_live now r then (Inr False, t)
        else (Inr True, filter (\<lambda>r. \<not> is_expired now r) t @ [set_row stringify now k d os]))"
  by (cases d; cases "ttl os"; cases "opts.expiresAt os")
     (auto simp add: set_kv_def statements_insertIgnore_def cleanup_expired_on_insert_def
        inserted_row_def set_row_def is_live_not_expired Let_def)

lemma set_kv_fault:
  "set_kv stringify now (Some e) t k d os =
     (if replace os \<noteq> Some True \<and> e = SQLiteError ''SQLITE_CONSTRAINT_PRIMARYKEY''
      then (Inr False, t) else (Inl e, t))"
  by (cases e) (auto simp add: set_kv_def statements_insertIgnore_def statements_insertReplace_def Let_def)


lemma set_kv_true:
  assumes "fst (set_kv stringify now fault t k d os) = Inr True"
  shows "fault = None"
    and "snd (set_kv stringify now fault t k d os) =
           filter (\<lambda>r. key r \<noteq> k \<and> \<not> is_expired now r) t @ [set_row stringify now k d os]"
proof -
  show f: "fault = None"
  proof (cases fault)
    case None then show ?thesis .
  next
    case (Some e)
    with assms show ?thesis by (simp add: set_kv_fault split: if_splits)
  qed
  show "snd (set_kv stringify now fault t k d os) =
           filter (\<lambda>r. key r \<noteq> k \<and> \<not> is_expired now r) t @ [set_row stringify now k d os]"
  proof (cases "replace os = Some True")
    case True
    with f show ?thesis by (simp add: set_kv_replace)
  next
    case False
    with assms f have nolive: "\<not> (\<exists>r\<in>set t. key r = k \<and> is_live now r)"
      by (simp add: set_kv_ignore split: if_splits)
    then have "filter (\<lambda>r. \<not> is_expired now r) t = filter (\<lambda>r. key r \<noteq> k \<and> \<not> is_expired now r) t"
      by (intro filter_cong) (auto simp: is_live_not_expired)
    moreover from False f nolive have "snd (set_kv stringify now fault t k d os) =
        filter (\<lambda>r. \<not> is_expired now r) t @ [set_row stringify now k d os]"
      by (auto simp add: set_kv_ignore)
    ultimately show ?thesis by simp
  qed
qed

lemma set_kv_cases:
  "set_kv stringify now fault t k d os =
      (Inr True, filter (\<lambda>r. key r \<noteq> k \<and> \<not> is_expired now r) t @ [set_row stringify now k d os])
   \<or> snd (set_kv stringify now fault t k d os) = t"
proof (cases "fst (set_kv stringify now fault t k d os) = Inr True")
  case True
  from set_kv_true(2) [OF True] True show ?thesis by (simp add: prod_eq_iff)
next
  case False
  then have "snd (set_kv stringify now fault t k d os) = t"
    by (cases fault; cases "replace os = Some True")
       (auto simp: set_kv_replace set_kv_ignore set_kv_fault split: if_splits)
  then show ?thesis ..
qed

lemma get_appended_row:
  assumes "\<forall>r\<in>set t. key r \<noteq> k" "key x = k" "is_live now x"
  shows "get parse now (t @ [x]) k = format parse (Some (returning x))"
  using assms by (simp add: get_def statements_select_def filter_key_absent)

lemma format_set_row:
  "ttl os = None \<Longrightarrow> opts.expiresAt os = None \<Longrightarrow> \<forall>v. d = Some v \<longrightarrow> parse (stringify v) = v \<Longrightarrow>
     format parse (Some (returning (set_row stringify now k d os))) =
       Some \<lparr>data = d, counter = 0, expiresAt = None, createdAt = now * 1000, updatedAt = now * 1000\<rparr>"
  by (cases d) (simp_all add: format_def returning_def set_row_def)

lemma get_after_set:
  assumes ok: "fst (set_kv stringify now fault t k d os) = Inr True"
    and os: "ttl os = None" "opts.expiresAt os = None"
    and rt: "\<forall>v. d = Some v \<longrightarrow> parse (stringify v) = v"
  shows "get parse now' (snd (set_kv stringify now fault t k d os)) k =
       Some \<lparr>data = d, counter = 0, expiresAt = None, createdAt = now * 1000, updatedAt = now * 1000\<rparr>"
proof -
  let ?x = "set_row stringify now k d os"
  have "key ?x = k" "is_live now' ?x" using os by (simp_all add: set_row_def is_live_def)
  moreover have "\<forall>r\<in>set (filter (\<lambda>r. key r \<noteq> k \<and> \<not> is_expired now r) t). key r \<noteq> k" by simp
  ultimately have "get parse now' (filter (\<lambda>r. key r \<noteq> k \<and> \<not> is_expired now r) t @ [?x]) k
      = format parse (Some (returning ?x))"
    by (rule get_appended_row [rotated])
  with set_kv_true(2) [OF ok] format_set_row [OF os rt] show ?thesis by simp
qed

lemma get_appended_row_iff:
  assumes "\<forall>r\<in>set t. key r \<noteq> k" "key x = k"
  shows "get parse now (t @ [x]) k =
           (if is_live now x then format parse (Some (returning x)) else None)"
  using assms by (simp add: get_def statements_select_def filter_key_absent format_def)

lemma set_row_eq:
  "set_row stringify now k d os =
     \<lparr>json_data = map_option stringify d, result.counter = 0,
      expires_at = (case ttl os of
                      Some s \<Rightarrow> Some (now + s)
                    | None \<Rightarrow> (case opts.expiresAt os of
                                 Some ms \<Rightarrow> Some (ms div 1000)
                               | None \<Rightarrow> None)),
      created_at = now, updated_at = now, key = k\<rparr>"
  by (cases "ttl os"; cases "opts.expiresAt os") (simp_all add: set_row_def)

lemma format_written_row:
  assumes "\<forall>v. d = Some v \<longrightarrow> parse (stringify v) = v"
  shows "format parse (Some (returning
           \<lparr>json_data = map_option stringify d, result.counter = 0, expires_at = e,
            created_at = now, updated_at = now, key = k\<rparr>)) =
         Some \<lparr>data = d, counter = 0,
               expiresAt = (case e of None \<Rightarrow> None
                            | Some x \<Rightarrow> if x = 0 then None else Some (x * 1000)),
               createdAt = now * 1000, updatedAt = now * 1000\<rparr>"
  using assms by (cases d) (simp_all add: format_def returning_def)

subsection \<open>What \<open>getDel\<close> and \<open>del\<close> do to the table\<close>

lemma delete_live_after_cleanup:
  "filter (\<lambda>r. \<not> (key r = k \<and> is_live now r)) (cleanup_expired_on_delete now t) =
     filter (\<lambda>x. key x \<noteq> k \<and> \<not> is_expired now x) t"
  unfolding cleanup_expired_on_delete_def filter_filter
  by (rule filter_cong) (auto simp: is_live_not_expired)

lemma getDel_hit:
  "filter (\<lambda>r. key r = k \<and> is_live now r) t = r # rs \<Longrightarrow>
     getDel parse now t k =
       (format parse (Some (returning r)), filter (\<lambda>x. key x \<noteq> k \<and> \<not> is_expired now x) t)"
  unfolding getDel_def statements_deleteSelect_def delete_live_after_cleanup by simp

lemma getDel_miss:
  "filter (\<lambda>r. key r = k \<and> is_live now r) t = [] \<Longrightarrow> getDel parse now t k = (None, t)"
  by (simp add: getDel_def statements_deleteSelect_def format_def)

lemma getDel_cases:
  "snd (getDel parse now t k) = t \<and> fst (getDel parse now t k) = None
   \<or> snd (getDel parse now t k) = filter (\<lambda>x. key x \<noteq> k \<and> \<not> is_expired now x) t"
  by (cases "filter (\<lambda>r. key r = k \<and> is_live now r) t") (simp_all add: getDel_hit getDel_miss)

lemma getDel_leaves_no_live:
  assumes "now \<le> now'"
  shows "filter (\<lambda>r. key r = k \<and> is_live now' r) (snd (getDel parse now t k)) = []"
proof (cases "filter (\<lambda>r. key r = k \<and> is_live now r) t")
  case Nil
  then have "\<forall>r\<in>set t. \<not> (key r = k \<and> is_live now r)" by (simp add: filter_empty_conv)
  with assms have "\<forall>r\<in>set t. \<not> (key r = k \<and> is_live now' r)" using is_live_mono by blast
  with Nil show ?thesis by (simp add: getDel_miss filter_empty_conv)
next
  case (Cons r rs)
  then show ?thesis by (simp add: getDel_hit filter_empty_conv)
qed

lemma del_cases:
  "del now t ks = (if list_ex (\<lambda>r. key r \<in> set ks) t
                   then filter (\<lambda>r. key r \<notin> set ks \<and> \<not> is_expired now r) t else t)"
proof (cases ks)
  case Nil
  then show ?thesis by (simp add: del_def list_ex_iff)
next
  case (Cons k ks')
  show ?thesis
  proof (cases ks')
    case Nil
    with Cons show ?thesis
      by (auto simp add: del_def statements_deleteSingle_def cleanup_expired_on_delete_def
            list_ex_iff conj_commute)
  next
    case (Cons k' ks'')
    with \<open>ks = k # ks'\<close> have "del now t ks = deleteMultipleQuery now t ks"
      by (simp add: del_def)
    then show ?thesis
      by (simp add: deleteMultipleQuery_def cleanup_expired_on_delete_def conj_commute)
  qed
qed

subsection \<open>What the counter update does to the table\<close>

lemma addToCounter_miss:
  "filter (\<lambda>r. key r = k \<and> is_live now r) t = [] \<Longrightarrow> addToCounter parse now t k delta = (None, t)"
  by (simp add: addToCounter_def statements_addToCounter_def format_def)

lemma addToCounter_hit:
  assumes "wf_table t" "r \<in> set t" "is_live now r"
  shows "addToCounter parse now t (key r) delta =
     (format parse (Some (returning (r\<lparr>result.counter := result.counter r + delta\<rparr>))),
      map (\<lambda>x. if x = r then r\<lparr>result.counter := result.counter r + delta, updated_at := now\<rparr> else x) t)"
proof -
  from assms have hit: "filter (\<lambda>x. key x = key r \<and> is_live now x) t = [r]"
    using filter_key_unique [of t r "is_live now"] by (simp add: wf_table_def)
  from assms have uniq: "\<forall>x\<in>set t. key x = key r \<longrightarrow> x = r"
    by (auto simp: wf_table_def distinct_map inj_on_def)
  have "update_updated_at_on_update now (key r)
             (map (\<lambda>x. if key x = key r \<and> is_live now x
                        then x\<lparr>result.counter := result.counter x + delta\<rparr> else x) t) =
        map (\<lambda>x. if x = r then r\<lparr>result.counter := result.counter r + delta, updated_at := now\<rparr> else x) t"
    unfolding update_updated_at_on_update_def map_map
    using uniq assms(3) by (intro map_cong) auto
  with hit show ?thesis
    by (simp add: addToCounter_def statements_addToCounter_def)
qed

lemma addToCounter_rows:
  assumes "r' \<in> set (snd (addToCounter parse now t k delta))"
  shows "\<exists>r\<in>set t. key r' = key r \<and> created_at r' = created_at r \<and> json_data r' = json_data r
           \<and> expires_at r' = expires_at r
           \<and> (updated_at r' = updated_at r \<or> updated_at r' = now)"
proof (cases "filter (\<lambda>r. key r = k \<and> is_live now r) t")
  case Nil
  with assms show ?thesis by (auto simp: addToCounter_miss)
next
  case (Cons a as)
  with assms obtain r where "r \<in> set t" and
    "r' = (let x = (if key r = k \<and> is_live now r then r\<lparr>result.counter := result.counter r + delta\<rparr> else r)
           in if key x = k then x\<lparr>updated_at := now\<rparr> else x)"
    by (auto simp: addToCounter_def statements_addToCounter_def update_updated_at_on_update_def Let_def)
  then show ?thesis by (auto simp: Let_def split: if_splits)
qed

subsection \<open>Calls keep the primary key and the order of the timestamps\<close>

text \<open>
  Every row after a call is a row from before it, with the same key and creation time
  and with \<open>updated_at\<close> either as before or the time of the call; or it is the row a
  \<^verbatim>\<open>set\<close> on its key has just written.
\<close>

lemma step_rows:
  assumes "r' \<in> set (step stringify parse now c t)"
  shows "(\<exists>r\<in>set t. key r' = key r \<and> created_at r' = created_at r
            \<and> (updated_at r' = updated_at r \<or> updated_at r' = now))
         \<or> (writes_key c (key r') \<and> created_at r' = now \<and> updated_at r' = now)"
proof (cases c)
  case (Get k)
  with assms show ?thesis by auto
next
  case (GetDel k)
  with assms getDel_cases [of parse now t k] show ?thesis by auto
next
  case (Set k d os fault)
  with assms set_kv_cases [of stringify now fault t k d os] show ?thesis
    by (auto simp: set_row_def)
next
  case (Del ks)
  with assms show ?thesis by (auto simp: del_cases split: if_splits)
next
  case (Increment k)
  with assms addToCounter_rows [of r' parse now t k 1] show ?thesis
    by (auto simp: increment_def)
next
  case (Decrement k)
  with assms addToCounter_rows [of r' parse now t k "- 1"] show ?thesis
    by (auto simp: decrement_def)
qed

lemma step_timestamps_ok:
  assumes "timestamps_ok now0 t" "now0 \<le> now"
  shows "timestamps_ok now (step stringify parse now c t)"
  unfolding timestamps_ok_def list_all_iff
proof
  fix r' assume "r' \<in> set (step stringify parse now c t)"
  from step_rows [OF this] assms
  show "created_at r' \<le> updated_at r' \<and> updated_at r' \<le> now"
    by (fastforce simp: timestamps_ok_def list_all_iff)
qed

lemma run_timestamps_ok:
  "timestamps_ok now0 t \<Longrightarrow> sorted (now0 # map fst cs) \<Longrightarrow>
     \<exists>now1. timestamps_ok now1 (run stringify parse cs t)"
proof (induction cs arbitrary: t now0)
  case Nil
  then show ?case by auto
next
  case (Cons x cs)
  obtain now c where x: "x = (now, c)" by (cases x)
  from Cons.prems x have "timestamps_ok now (step stringify parse now c t)"
    by (intro step_timestamps_ok [of now0]) simp_all
  moreover from Cons.prems x have "sorted (now # map fst cs)" by simp
  ultimately show ?case using Cons.IH x by simp
qed

lemma wf_table_step: "wf_table t \<Longrightarrow> wf_table (step stringify parse now c t)"
proof (cases c)
  case (Get k)
  assume "wf_table t" with Get show ?thesis by simp
next
  case (GetDel k)
  assume "wf_table t"
  with GetDel getDel_cases [of parse now t k] show ?thesis
    by (auto simp: wf_table_def distinct_map_filter)
next
  case (Set k d os fault)
  assume "wf_table t"
  with Set set_kv_cases [of stringify now fault t k d os] show ?thesis
    by (auto simp: wf_table_def distinct_map_filter set_row_def)
next
  case (Del ks)
  assume "wf_table t"
  with Del show ?thesis by (auto simp: del_cases wf_table_def distinct_map_filter)
next
  case (Increment k)
  have "map key (snd (addToCounter parse now t k 1)) = map key t"
    by (cases "filter (\<lambda>r. key r = k \<and> is_live now r) t")
       (auto simp: addToCounter_def statements_addToCounter_def update_updated_at_on_update_def)
  moreover assume "wf_table t"
  ultimately show ?thesis using Increment by (simp add: wf_table_def increment_def)
next
  case (Decrement k)
  have "map key (snd (addToCounter parse now t k (- 1))) = map key t"
    by (cases "filter (\<lambda>r. key r = k \<and> is_live now r) t")
       (auto simp: addToCounter_def statements_addToCounter_def update_updated_at_on_update_def)
  moreover assume "wf_table t"
  ultimately show ?thesis using Decrement by (simp add: wf_table_def decrement_def)
qed

lemma wf_table_run: "wf_table t \<Longrightarrow> wf_table (run stringify parse cs t)"
proof (induction cs arbitrary: t)
  case Nil
  then show ?case by simp
next
  case (Cons x cs)
  then show ?case by (cases x) (simp add: wf_table_step)
qed

section \<open>The claims\<close>

subsection \<open>Reading: \<open>get\<close>\<close>

text \<open>
  Claim C1. For every key \<open>k\<close>, \<open>get\<close> returns an entry if and only if the table has
  a row of \<open>k\<close> whose \<open>expires_at\<close> is null or strictly greater than the current time.
  Under the primary key, the entry returned is the formatted row of \<open>k\<close>, and a row of
  \<open>k\<close> whose \<open>expires_at\<close> is at or before the current time gives \<open>null\<close>, although
  the row is still stored (a read deletes nothing). A key with no row gives \<open>null\<close>.
\<close>

theorem get_live_iff:
  "(get parse now t k \<noteq> None \<longleftrightarrow>
      (\<exists>r\<in>set t. key r = k \<and> (expires_at r = None \<or> (\<exists>e. expires_at r = Some e \<and> now < e))))
   \<and> (wf_table t \<longrightarrow>
        (\<forall>r\<in>set t. key r = k \<longrightarrow>
           get parse now t k =
             (if expires_at r = None \<or> (\<exists>e. expires_at r = Some e \<and> now < e)
              then format parse (Some (returning r)) else None)))
   \<and> ((\<forall>r\<in>set t. key r \<noteq> k) \<longrightarrow> get parse now t k = None)"
proof (intro conjI impI ballI)
  show "get parse now t k \<noteq> None \<longleftrightarrow>
      (\<exists>r\<in>set t. key r = k \<and> (expires_at r = None \<or> (\<exists>e. expires_at r = Some e \<and> now < e)))"
  proof -
    have "get parse now t k \<noteq> None \<longleftrightarrow> filter (\<lambda>r. key r = k \<and> is_live now r) t \<noteq> []"
      by (simp add: get_def statements_select_def format_def split: list.splits)
    also have "\<dots> \<longleftrightarrow> (\<exists>r\<in>set t. key r = k \<and> is_live now r)"
      by (auto simp: filter_empty_conv)
    finally show ?thesis by (simp add: is_live_iff)
  qed
next
  fix r assume wf: "wf_table t" and r: "r \<in> set t" "key r = k"
  from wf r have "filter (\<lambda>x. key x = k \<and> is_live now x) t = (if is_live now r then [r] else [])"
    using filter_key_unique [of t r "is_live now"] by (simp add: wf_table_def)
  then show "get parse now t k =
             (if expires_at r = None \<or> (\<exists>e. expires_at r = Some e \<and> now < e)
              then format parse (Some (returning r)) else None)"
    by (simp add: get_def statements_select_def format_def is_live_iff)
next
  assume "\<forall>r\<in>set t. key r \<noteq> k"
  then show "get parse now t k = None"
    by (simp add: get_def statements_select_def format_def filter_key_absent)
qed

text \<open>At time 100 on the example table: \<open>a\<close> is expired, \<open>b\<close> and \<open>c\<close> are live, \<open>z\<close> has no row.\<close>

theorem get_live_iff_witness:
  "wf_table ex_table
   \<and> get (\<lambda>s. s) 100 ex_table ''a'' = None
   \<and> get (\<lambda>s. s) 100 ex_table ''b'' =
       Some \<lparr>data = Some ''2'', counter = 3, expiresAt = None, createdAt = 20000, updatedAt = 30000\<rparr>
   \<and> get (\<lambda>s. s) 100 ex_table ''c'' \<noteq> None
   \<and> get (\<lambda>s. s) 100 ex_table ''z'' = None"
proof -
  have a: "row_a \<in> set ex_table" "key row_a = ''a''" and b: "row_b \<in> set ex_table" "key row_b = ''b''"
    by (simp_all add: ex_table_rows row_a_def row_b_def)
  have ea: "expires_at row_a = Some 50" and eb: "expires_at row_b = None"
    by (simp_all add: row_a_def row_b_def)
  have c: "\<exists>r\<in>set ex_table. key r = ''c'' \<and>
             (expires_at r = None \<or> (\<exists>e. expires_at r = Some e \<and> 100 < e))"
    by (simp add: ex_table_rows row_c_def)
  have z: "\<forall>r\<in>set ex_table. key r \<noteq> ''z''"
    by (simp add: ex_table_rows row_a_def row_b_def row_c_def)
  note A = get_live_iff [of "\<lambda>s. s" 100 ex_table "''a''", THEN conjunct2, THEN conjunct1,
      THEN mp, OF wf_ex_table, THEN bspec, OF a(1), THEN mp, OF a(2)]
  note B = get_live_iff [of "\<lambda>s. s" 100 ex_table "''b''", THEN conjunct2, THEN conjunct1,
      THEN mp, OF wf_ex_table, THEN bspec, OF b(1), THEN mp, OF b(2)]
  from A ea have 1: "get (\<lambda>s. s) 100 ex_table ''a'' = None" by simp
  from B eb have 2: "get (\<lambda>s. s) 100 ex_table ''b'' =
       Some \<lparr>data = Some ''2'', counter = 3, expiresAt = None, createdAt = 20000, updatedAt = 30000\<rparr>"
    by (simp add: format_def returning_def row_b_def)
  from get_live_iff [of "\<lambda>s. s" 100 ex_table "''c''", THEN conjunct1] c
  have 3: "get (\<lambda>s. s) 100 ex_table ''c'' \<noteq> None" by simp
  from get_live_iff [of "\<lambda>s. s" 100 ex_table "''z''", THEN conjunct2, THEN conjunct2, THEN mp, OF z]
  have 4: "get (\<lambda>s. s) 100 ex_table ''z'' = None" .
  from wf_ex_table 1 2 3 4 show ?thesis by simp
qed

subsection \<open>Writing without \<open>replace\<close>\<close>



subsection \<open>Reading and deleting: \<open>getDel\<close>\<close>

text \<open>
  Claim C3. If the row of \<open>k\<close> is live, \<open>getDel\<close> returns it formatted, as it was
  before the call, and removes it (the trigger removes the expired rows of the table
  with it). If no row of \<open>k\<close> is live it returns \<open>null\<close> and the table is unchanged. It
  returns an entry exactly when a live row exists, and a \<open>getDel\<close> or \<open>get\<close> of the
  same key that follows (the clock not going back) returns \<open>null\<close>.
\<close>

theorem getDel_once:
  "(wf_table t \<longrightarrow>
      (\<forall>r\<in>set t. key r = k \<and> is_live now r \<longrightarrow>
         getDel parse now t k =
           (format parse (Some (returning r)), filter (\<lambda>x. key x \<noteq> k \<and> \<not> is_expired now x) t)))
   \<and> (\<not> (\<exists>r\<in>set t. key r = k \<and> is_live now r) \<longrightarrow> getDel parse now t k = (None, t))
   \<and> (fst (getDel parse now t k) \<noteq> None \<longleftrightarrow> (\<exists>r\<in>set t. key r = k \<and> is_live now r))
   \<and> (now \<le> now' \<longrightarrow>
         fst (getDel parse now' (snd (getDel parse now t k)) k) = None
       \<and> get parse now' (snd (getDel parse now t k)) k = None)"
proof (intro conjI impI ballI)
  fix r assume "wf_table t" "r \<in> set t" "key r = k \<and> is_live now r"
  then have "filter (\<lambda>x. key x = k \<and> is_live now x) t = [r]"
    using filter_key_unique [of t r "is_live now"] by (auto simp: wf_table_def)
  then show "getDel parse now t k =
           (format parse (Some (returning r)), filter (\<lambda>x. key x \<noteq> k \<and> \<not> is_expired now x) t)"
    by (rule getDel_hit)
next
  assume "\<not> (\<exists>r\<in>set t. key r = k \<and> is_live now r)"
  then have "filter (\<lambda>r. key r = k \<and> is_live now r) t = []"
    using no_live_filter [of k now t] by blast
  then show "getDel parse now t k = (None, t)"
    by (rule getDel_miss)
next
  show "fst (getDel parse now t k) \<noteq> None \<longleftrightarrow> (\<exists>r\<in>set t. key r = k \<and> is_live now r)"
  proof (cases "filter (\<lambda>r. key r = k \<and> is_live now r) t")
    case Nil
    then show ?thesis using no_live_filter [of k now t] by (simp add: getDel_miss)
  next
    case (Cons r rs)
    then show ?thesis using no_live_filter [of k now t] by (simp add: getDel_hit format_Some)
  qed
next
  assume le: "now \<le> now'"
  show "fst (getDel parse now' (snd (getDel parse now t k)) k) = None"
    using getDel_leaves_no_live [OF le, of k parse t] by (simp add: getDel_miss)
  show "get parse now' (snd (getDel parse now t k)) k = None"
    using getDel_leaves_no_live [OF le, of k parse t]
    by (simp add: get_def statements_select_def format_def)
qed

text \<open>On the example table at time 100: \<open>c\<close> is returned once; \<open>a\<close> is expired and stays.\<close>

theorem getDel_once_witness:
  "wf_table ex_table
   \<and> getDel (\<lambda>s. s) 100 ex_table ''c'' =
       (Some \<lparr>data = None, counter = 7, expiresAt = Some 200000, createdAt = 40000, updatedAt = 40000\<rparr>,
        [row_b])
   \<and> getDel (\<lambda>s. s) 100 ex_table ''a'' = (None, ex_table)
   \<and> fst (getDel (\<lambda>s. s) 100 (snd (getDel (\<lambda>s. s) 100 ex_table ''c'')) ''c'') = None
   \<and> get (\<lambda>s. s) 100 (snd (getDel (\<lambda>s. s) 100 ex_table ''c'')) ''c'' = None"
proof -
  note C = getDel_once [where t = ex_table and now = 100 and now' = 100 and k = "''c''"
      and parse = "\<lambda>s. s"]
  note A = getDel_once [where t = ex_table and now = 100 and now' = 100 and k = "''a''"
      and parse = "\<lambda>s. s"]
  have c: "row_c \<in> set ex_table" "key row_c = ''c'' \<and> is_live 100 row_c"
    by (simp_all add: ex_table_rows row_c_def is_live_def)
  have a: "\<not> (\<exists>r\<in>set ex_table. key r = ''a'' \<and> is_live 100 r)"
    by (simp add: ex_table_rows row_a_def row_b_def row_c_def is_live_def)
  from C wf_ex_table c have "getDel (\<lambda>s. s) 100 ex_table ''c'' =
      (format (\<lambda>s. s) (Some (returning row_c)),
       filter (\<lambda>x. key x \<noteq> ''c'' \<and> \<not> is_expired 100 x) ex_table)"
    by blast
  then have 1: "getDel (\<lambda>s. s) 100 ex_table ''c'' =
       (Some \<lparr>data = None, counter = 7, expiresAt = Some 200000, createdAt = 40000, updatedAt = 40000\<rparr>,
        [row_b])"
    by (simp add: format_def returning_def ex_table_rows row_a_def row_b_def row_c_def is_expired_def)
  from A a have 2: "getDel (\<lambda>s. s) 100 ex_table ''a'' = (None, ex_table)" by blast
  from C have 3: "fst (getDel (\<lambda>s. s) 100 (snd (getDel (\<lambda>s. s) 100 ex_table ''c'')) ''c'') = None"
    and 4: "get (\<lambda>s. s) 100 (snd (getDel (\<lambda>s. s) 100 ex_table ''c'')) ''c'' = None"
    by simp_all
  from wf_ex_table 1 2 3 4 show ?thesis by simp
qed

subsection \<open>Counters\<close>

text \<open>
  For a live row, the counter update returns the row with the new counter and writes
  it with the new counter and the time of the call (\<open>addToCounter_hit\<close>); for a key
  with no live row it returns \<open>null\<close> and leaves the table as it is
  (\<open>addToCounter_miss\<close>). Any sequence of increments and decrements of a key whose
  row stays live adds to its counter the number of increments minus the number of
  decrements:
\<close>

lemma counter_exact:
  assumes "wf_table t" "r \<in> set t"
    and "\<forall>x\<in>set cs. is_live (fst x) r \<and> (snd x = Increment (key r) \<or> snd x = Decrement (key r))"
  shows "\<exists>r'\<in>set (run stringify parse cs t).
           key r' = key r \<and> expires_at r' = expires_at r \<and>
           result.counter r' = result.counter r + sum_list (map (\<lambda>x. counter_delta (snd x)) cs)"
  using assms
proof (induction cs arbitrary: t r)
  case Nil
  then show ?case by auto
next
  case (Cons x cs)
  obtain now c where x: "x = (now, c)" by (cases x)
  with Cons.prems have live: "is_live now r"
    and c: "c = Increment (key r) \<or> c = Decrement (key r)" by auto
  define delta where "delta = counter_delta c"
  define r2 where "r2 = r\<lparr>result.counter := result.counter r + delta, updated_at := now\<rparr>"
  from c have "step stringify parse now c t = snd (addToCounter parse now t (key r) delta)"
    by (auto simp: delta_def increment_def decrement_def)
  with Cons.prems(1,2) live
  have st: "step stringify parse now c t = map (\<lambda>y. if y = r then r2 else y) t"
    by (simp add: addToCounter_hit r2_def)
  from Cons.prems(2) have in2: "r2 \<in> set (step stringify parse now c t)"
    unfolding st by (auto simp: image_iff)
  have wf2: "wf_table (step stringify parse now c t)"
    using Cons.prems(1) by (rule wf_table_step)
  have same: "key r2 = key r" "expires_at r2 = expires_at r"
    "result.counter r2 = result.counter r + delta"
    by (simp_all add: r2_def)
  from Cons.prems(3) same
  have rest: "\<forall>y\<in>set cs. is_live (fst y) r2 \<and> (snd y = Increment (key r2) \<or> snd y = Decrement (key r2))"
    by (simp add: is_live_cong [of r2 r])
  from Cons.IH [OF wf2 in2 rest] x same show ?case
    by (auto simp: delta_def)
qed

text \<open>
  Claim C4. \<open>increment\<close> and \<open>decrement\<close> add 1 and -1 to the counter of a live entry
  and are to return the row after the update. The row they return carries the new
  counter but the \<open>updated_at\<close> from before the update: \<^verbatim>\<open>RETURNING\<close> is evaluated
  before the trigger \<^verbatim>\<open>update_updated_at_on_update\<close> stamps the row. On the example
  table at time 100, \<open>increment\<close> of \<open>c\<close> returns \<open>updatedAt = 40000\<close>, and a \<open>get\<close> at
  the same time reads \<open>updatedAt = 100000\<close> from the row the call has written.
\<close>

theorem increment_returns_stale_updatedAt:
  "fst (increment (\<lambda>s. s) 100 ex_table ''c'') =
     Some \<lparr>data = None, counter = 8, expiresAt = Some 200000, createdAt = 40000, updatedAt = 40000\<rparr>
   \<and> get (\<lambda>s. s) 100 (snd (increment (\<lambda>s. s) 100 ex_table ''c'')) ''c'' =
     Some \<lparr>data = None, counter = 8, expiresAt = Some 200000, createdAt = 40000, updatedAt = 100000\<rparr>"
  by (simp add: increment_def addToCounter_def statements_addToCounter_def ex_table_def row_a_def row_b_def row_c_def is_live_def
      update_updated_at_on_update_def returning_def format_def get_def statements_select_def)

text \<open>
  Claim C9. For a live row \<open>r\<close>, \<open>increment\<close> and \<open>decrement\<close> of its key leave every
  other row of the table as it is, expired rows included, and replace \<open>r\<close> by \<open>r\<close> with
  the counter one more (one less) and \<open>updated_at\<close> the time of the call: the payload,
  \<open>expires_at\<close>, \<open>created_at\<close> and the key are those of \<open>r\<close>.
\<close>

theorem counter_frame:
  "wf_table t \<and> r \<in> set t \<and> is_live now r \<longrightarrow>
     snd (increment parse now t (key r)) =
       map (\<lambda>x. if x = r then r\<lparr>result.counter := result.counter r + 1, updated_at := now\<rparr> else x) t
   \<and> snd (decrement parse now t (key r)) =
       map (\<lambda>x. if x = r then r\<lparr>result.counter := result.counter r - 1, updated_at := now\<rparr> else x) t"
  by (simp add: increment_def decrement_def addToCounter_hit)

text \<open>On the example table at time 100, for the live row of \<open>c\<close>; the expired row of \<open>a\<close> stays.\<close>

theorem counter_frame_witness:
  "wf_table ex_table \<and> row_c \<in> set ex_table \<and> is_live 100 row_c
   \<and> snd (increment (\<lambda>s. s) 100 ex_table ''c'') =
       [row_a, row_b, row_c\<lparr>result.counter := 8, updated_at := 100\<rparr>]
   \<and> snd (decrement (\<lambda>s. s) 100 ex_table ''c'') =
       [row_a, row_b, row_c\<lparr>result.counter := 6, updated_at := 100\<rparr>]"
proof -
  have c: "wf_table ex_table \<and> row_c \<in> set ex_table \<and> is_live 100 row_c"
    using wf_ex_table by (simp add: ex_table_rows row_c_def is_live_def)
  have k: "key row_c = ''c''" "result.counter row_c = 7" by (simp_all add: row_c_def)
  have ne: "row_a \<noteq> row_c" "row_b \<noteq> row_c" by (simp_all add: row_a_def row_b_def row_c_def)
  from counter_frame [where t = ex_table and r = row_c and now = 100 and parse = "\<lambda>s. s",
      THEN mp, OF c] c k ne
  show ?thesis by (simp add: ex_table_rows)
qed

subsection \<open>Writing with \<open>replace\<close>, and the round trip\<close>

text \<open>
  Claim C5. A \<open>set\<close> with \<open>replace: true\<close> never returns \<open>false\<close>, and when the engine
  does not fail it returns \<open>true\<close>, whatever the table holds and whatever expiration the
  options give. The table afterwards is the old one without its expired rows and
  without any row of the key, followed by the new row: payload serialised, counter 0,
  the expiration \<open>e\<close> computed from the options, both timestamps the time of the call.
  For a payload that \<open>parse\<close> reads back from \<open>stringify\<close>, a \<open>get\<close> at a time at which
  the new row is live returns that payload with counter 0 and the expiration \<open>e\<close>, and
  \<open>null\<close> once \<open>e\<close> has passed. With no expiration option, the only row of the key is
  the new one with no expiration, and a \<open>get\<close> at any time returns the payload with
  counter 0 and \<open>expiresAt\<close> null.
\<close>

theorem set_replace:
  "replace os = Some True \<longrightarrow>
     fst (set_kv stringify now fault t k d os) \<noteq> Inr False
   \<and> fst (set_kv stringify now None t k d os) = Inr True
   \<and> (\<forall>e. e = (case ttl os of
                  Some s \<Rightarrow> Some (now + s)
                | None \<Rightarrow> (case opts.expiresAt os of
                             Some ms \<Rightarrow> Some (ms div 1000)
                           | None \<Rightarrow> None)) \<longrightarrow>
        snd (set_kv stringify now None t k d os) =
          filter (\<lambda>r. key r \<noteq> k \<and> \<not> is_expired now r) t @
          [\<lparr>json_data = map_option stringify d, result.counter = 0, expires_at = e,
            created_at = now, updated_at = now, key = k\<rparr>]
      \<and> ((\<forall>v. d = Some v \<longrightarrow> parse (stringify v) = v) \<longrightarrow>
           (\<forall>now'. get parse now' (snd (set_kv stringify now None t k d os)) k =
              (if e = None \<or> (\<exists>x. e = Some x \<and> now' < x)
               then Some \<lparr>data = d, counter = 0,
                          expiresAt = (case e of None \<Rightarrow> None
                                       | Some x \<Rightarrow> if x = 0 then None else Some (x * 1000)),
                          createdAt = now * 1000, updatedAt = now * 1000\<rparr>
               else None))))
   \<and> (ttl os = None \<and> opts.expiresAt os = None \<longrightarrow>
        (\<forall>r\<in>set (snd (set_kv stringify now None t k d os)). key r = k \<longrightarrow>
           r = \<lparr>json_data = map_option stringify d, result.counter = 0, expires_at = None,
                 created_at = now, updated_at = now, key = k\<rparr>)
      \<and> ((\<forall>v. d = Some v \<longrightarrow> parse (stringify v) = v) \<longrightarrow>
           (\<forall>now'. get parse now' (snd (set_kv stringify now None t k d os)) k =
              Some \<lparr>data = d, counter = 0, expiresAt = None,
                    createdAt = now * 1000, updatedAt = now * 1000\<rparr>)))"
proof (intro impI)
  assume r: "replace os = Some True"
  have nofalse: "fst (set_kv stringify now fault t k d os) \<noteq> Inr False"
    using r by (cases fault) (simp_all add: set_kv_replace set_kv_fault)
  have ok: "fst (set_kv stringify now None t k d os) = Inr True"
    using r by (simp add: set_kv_replace)
  have general: "\<forall>e. e = (case ttl os of
                  Some s \<Rightarrow> Some (now + s)
                | None \<Rightarrow> (case opts.expiresAt os of
                             Some ms \<Rightarrow> Some (ms div 1000)
                           | None \<Rightarrow> None)) \<longrightarrow>
        snd (set_kv stringify now None t k d os) =
          filter (\<lambda>r. key r \<noteq> k \<and> \<not> is_expired now r) t @
          [\<lparr>json_data = map_option stringify d, result.counter = 0, expires_at = e,
            created_at = now, updated_at = now, key = k\<rparr>]
      \<and> ((\<forall>v. d = Some v \<longrightarrow> parse (stringify v) = v) \<longrightarrow>
           (\<forall>now'. get parse now' (snd (set_kv stringify now None t k d os)) k =
              (if e = None \<or> (\<exists>x. e = Some x \<and> now' < x)
               then Some \<lparr>data = d, counter = 0,
                          expiresAt = (case e of None \<Rightarrow> None
                                       | Some x \<Rightarrow> if x = 0 then None else Some (x * 1000)),
                          createdAt = now * 1000, updatedAt = now * 1000\<rparr>
               else None)))"
  proof (intro allI impI conjI)
    fix e
    assume e: "e = (case ttl os of
                  Some s \<Rightarrow> Some (now + s)
                | None \<Rightarrow> (case opts.expiresAt os of
                             Some ms \<Rightarrow> Some (ms div 1000)
                           | None \<Rightarrow> None))"
    let ?x = "\<lparr>json_data = map_option stringify d, result.counter = 0, expires_at = e,
            created_at = now, updated_at = now, key = k\<rparr>"
    let ?t' = "filter (\<lambda>r. key r \<noteq> k \<and> \<not> is_expired now r) t"
    from e have row: "set_row stringify now k d os = ?x"
      by (simp only: set_row_eq)
    with r show tab: "snd (set_kv stringify now None t k d os) = ?t' @ [?x]"
      by (simp add: set_kv_replace)
    fix now'
    assume rt: "\<forall>v. d = Some v \<longrightarrow> parse (stringify v) = v"
    have "get parse now' (?t' @ [?x]) k =
            (if is_live now' ?x then format parse (Some (returning ?x)) else None)"
      by (rule get_appended_row_iff) simp_all
    moreover have "is_live now' ?x = (e = None \<or> (\<exists>x. e = Some x \<and> now' < x))"
      by (simp add: is_live_iff)
    ultimately show "get parse now' (snd (set_kv stringify now None t k d os)) k =
              (if e = None \<or> (\<exists>x. e = Some x \<and> now' < x)
               then Some \<lparr>data = d, counter = 0,
                          expiresAt = (case e of None \<Rightarrow> None
                                       | Some x \<Rightarrow> if x = 0 then None else Some (x * 1000)),
                          createdAt = now * 1000, updatedAt = now * 1000\<rparr>
               else None)"
      by (simp only: tab format_written_row [OF rt])
  qed
  have plain: "ttl os = None \<and> opts.expiresAt os = None \<longrightarrow>
        (\<forall>r\<in>set (snd (set_kv stringify now None t k d os)). key r = k \<longrightarrow>
           r = \<lparr>json_data = map_option stringify d, result.counter = 0, expires_at = None,
                 created_at = now, updated_at = now, key = k\<rparr>)
      \<and> ((\<forall>v. d = Some v \<longrightarrow> parse (stringify v) = v) \<longrightarrow>
           (\<forall>now'. get parse now' (snd (set_kv stringify now None t k d os)) k =
              Some \<lparr>data = d, counter = 0, expiresAt = None,
                    createdAt = now * 1000, updatedAt = now * 1000\<rparr>))"
  proof (intro impI conjI allI ballI)
    assume os: "ttl os = None \<and> opts.expiresAt os = None"
    show "x = \<lparr>json_data = map_option stringify d, result.counter = 0, expires_at = None,
                 created_at = now, updated_at = now, key = k\<rparr>"
      if "x \<in> set (snd (set_kv stringify now None t k d os))" "key x = k" for x
      using that r os by (auto simp add: set_kv_replace set_row_def)
    show "get parse now' (snd (set_kv stringify now None t k d os)) k =
              Some \<lparr>data = d, counter = 0, expiresAt = None,
                    createdAt = now * 1000, updatedAt = now * 1000\<rparr>"
      if "\<forall>v. d = Some v \<longrightarrow> parse (stringify v) = v" for now'
      using get_after_set [OF ok _ _ that] os by simp
  qed
  show "fst (set_kv stringify now fault t k d os) \<noteq> Inr False
   \<and> fst (set_kv stringify now None t k d os) = Inr True
   \<and> (\<forall>e. e = (case ttl os of
                  Some s \<Rightarrow> Some (now + s)
                | None \<Rightarrow> (case opts.expiresAt os of
                             Some ms \<Rightarrow> Some (ms div 1000)
                           | None \<Rightarrow> None)) \<longrightarrow>
        snd (set_kv stringify now None t k d os) =
          filter (\<lambda>r. key r \<noteq> k \<and> \<not> is_expired now r) t @
          [\<lparr>json_data = map_option stringify d, result.counter = 0, expires_at = e,
            created_at = now, updated_at = now, key = k\<rparr>]
      \<and> ((\<forall>v. d = Some v \<longrightarrow> parse (stringify v) = v) \<longrightarrow>
           (\<forall>now'. get parse now' (snd (set_kv stringify now None t k d os)) k =
              (if e = None \<or> (\<exists>x. e = Some x \<and> now' < x)
               then Some \<lparr>data = d, counter = 0,
                          expiresAt = (case e of None \<Rightarrow> None
                                       | Some x \<Rightarrow> if x = 0 then None else Some (x * 1000)),
                          createdAt = now * 1000, updatedAt = now * 1000\<rparr>
               else None))))
   \<and> (ttl os = None \<and> opts.expiresAt os = None \<longrightarrow>
        (\<forall>r\<in>set (snd (set_kv stringify now None t k d os)). key r = k \<longrightarrow>
           r = \<lparr>json_data = map_option stringify d, result.counter = 0, expires_at = None,
                 created_at = now, updated_at = now, key = k\<rparr>)
      \<and> ((\<forall>v. d = Some v \<longrightarrow> parse (stringify v) = v) \<longrightarrow>
           (\<forall>now'. get parse now' (snd (set_kv stringify now None t k d os)) k =
              Some \<lparr>data = d, counter = 0, expiresAt = None,
                    createdAt = now * 1000, updatedAt = now * 1000\<rparr>)))"
    by (intro conjI nofalse ok general plain)
qed

text \<open>
  On the example table at time 100 the row of \<open>b\<close> (counter 3) is overwritten: with no
  expiration, and with \<open>ttl: 5\<close>, where the table afterwards is the row of \<open>c\<close> and
  the new row, read by a \<open>get\<close> at 102 and expired at 105.
\<close>

theorem set_replace_witness:
  "replace \<lparr>replace = Some True, ttl = None, opts.expiresAt = None\<rparr> = Some True
   \<and> fst (set_kv (\<lambda>s. s) 100 None ex_table ''b'' (Some ''x'')
           \<lparr>replace = Some True, ttl = None, opts.expiresAt = None\<rparr>) = Inr True
   \<and> get (\<lambda>s. s) 500
        (snd (set_kv (\<lambda>s. s) 100 None ex_table ''b'' (Some ''x'')
           \<lparr>replace = Some True, ttl = None, opts.expiresAt = None\<rparr>)) ''b'' =
       Some \<lparr>data = Some ''x'', counter = 0, expiresAt = None, createdAt = 100000, updatedAt = 100000\<rparr>
   \<and> fst (set_kv (\<lambda>s. s) 100 None ex_table ''b'' (Some ''x'')
           \<lparr>replace = Some True, ttl = Some 5, opts.expiresAt = None\<rparr>) = Inr True
   \<and> snd (set_kv (\<lambda>s. s) 100 None ex_table ''b'' (Some ''x'')
           \<lparr>replace = Some True, ttl = Some 5, opts.expiresAt = None\<rparr>) =
       [row_c,
        \<lparr>json_data = Some ''x'', result.counter = 0, expires_at = Some 105,
         created_at = 100, updated_at = 100, key = ''b''\<rparr>]
   \<and> get (\<lambda>s. s) 102
        (snd (set_kv (\<lambda>s. s) 100 None ex_table ''b'' (Some ''x'')
           \<lparr>replace = Some True, ttl = Some 5, opts.expiresAt = None\<rparr>)) ''b'' =
       Some \<lparr>data = Some ''x'', counter = 0, expiresAt = Some 105000,
             createdAt = 100000, updatedAt = 100000\<rparr>
   \<and> get (\<lambda>s. s) 105
        (snd (set_kv (\<lambda>s. s) 100 None ex_table ''b'' (Some ''x'')
           \<lparr>replace = Some True, ttl = Some 5, opts.expiresAt = None\<rparr>)) ''b'' = None"
proof -
  let ?os = "\<lparr>replace = Some True, ttl = None, opts.expiresAt = None\<rparr>"
  let ?ttl = "\<lparr>replace = Some True, ttl = Some 5, opts.expiresAt = None\<rparr>"
  have r: "replace ?os = Some True" and o: "ttl ?os = None \<and> opts.expiresAt ?os = None"
    and rt: "\<forall>v. Some ''x'' = Some v \<longrightarrow> (\<lambda>s. s) ((\<lambda>s. s) v) = v"
    and r': "replace ?ttl = Some True"
    and e: "Some 105 = (case ttl ?ttl of
                  Some s \<Rightarrow> Some (100 + s)
                | None \<Rightarrow> (case opts.expiresAt ?ttl of
                             Some ms \<Rightarrow> Some (ms div 1000)
                           | None \<Rightarrow> None))"
    by simp_all
  note T = set_replace [where os = ?os and stringify = "\<lambda>s. s" and parse = "\<lambda>s. s" and now = 100
      and t = ex_table and k = "''b''" and d = "Some ''x''" and fault = None, THEN mp, OF r,
      THEN conjunct2]
  from T have 1: "fst (set_kv (\<lambda>s. s) 100 None ex_table ''b'' (Some ''x'') ?os) = Inr True"
    by (rule conjunct1)
  from T [THEN conjunct2, THEN conjunct2, THEN mp, OF o, THEN conjunct2, THEN mp, OF rt]
  have 2: "get (\<lambda>s. s) 500 (snd (set_kv (\<lambda>s. s) 100 None ex_table ''b'' (Some ''x'') ?os)) ''b'' =
       Some \<lparr>data = Some ''x'', counter = 0, expiresAt = None, createdAt = 100000, updatedAt = 100000\<rparr>"
    by simp
  note U = set_replace [where os = ?ttl and stringify = "\<lambda>s. s" and parse = "\<lambda>s. s" and now = 100
      and t = ex_table and k = "''b''" and d = "Some ''x''" and fault = None, THEN mp, OF r',
      THEN conjunct2]
  from U have 3: "fst (set_kv (\<lambda>s. s) 100 None ex_table ''b'' (Some ''x'') ?ttl) = Inr True"
    by (rule conjunct1)
  note G = U [THEN conjunct2, THEN conjunct1, THEN spec, of "Some 105", THEN mp, OF e]
  from G [THEN conjunct1]
  have 4: "snd (set_kv (\<lambda>s. s) 100 None ex_table ''b'' (Some ''x'') ?ttl) =
       [row_c,
        \<lparr>json_data = Some ''x'', result.counter = 0, expires_at = Some 105,
         created_at = 100, updated_at = 100, key = ''b''\<rparr>]"
    by (simp add: ex_table_rows row_a_def row_b_def row_c_def is_expired_def)
  note H = G [THEN conjunct2, THEN mp, OF rt]
  from H [THEN spec, of 102]
  have 5: "get (\<lambda>s. s) 102 (snd (set_kv (\<lambda>s. s) 100 None ex_table ''b'' (Some ''x'') ?ttl)) ''b'' =
       Some \<lparr>data = Some ''x'', counter = 0, expiresAt = Some 105000,
             createdAt = 100000, updatedAt = 100000\<rparr>"
    by simp
  from H [THEN spec, of 105]
  have 6: "get (\<lambda>s. s) 105 (snd (set_kv (\<lambda>s. s) 100 None ex_table ''b'' (Some ''x'') ?ttl)) ''b'' = None"
    by simp
  from r 1 2 3 4 5 6 show ?thesis by simp
qed

text \<open>
  Claim C6. For a key with no live row and a payload that \<open>parse\<close> reads back from
  \<open>stringify\<close>, a \<open>set\<close> with no options returns \<open>true\<close>, and a \<open>get\<close> that follows
  returns the payload with counter 0, \<open>expiresAt\<close> null and \<open>createdAt\<close> equal to
  \<open>updatedAt\<close> (both the time of the \<open>set\<close>).
\<close>

theorem set_get_roundtrip:
  "\<not> (\<exists>r\<in>set t. key r = k \<and> is_live now r) \<and> (\<forall>v. d = Some v \<longrightarrow> parse (stringify v) = v) \<longrightarrow>
     fst (set_kv stringify now None t k d \<lparr>replace = None, ttl = None, opts.expiresAt = None\<rparr>) = Inr True
   \<and> get parse now'
         (snd (set_kv stringify now None t k d \<lparr>replace = None, ttl = None, opts.expiresAt = None\<rparr>)) k =
       Some \<lparr>data = d, counter = 0, expiresAt = None, createdAt = now * 1000, updatedAt = now * 1000\<rparr>"
proof (intro impI, elim conjE)
  let ?os = "\<lparr>replace = None, ttl = None, opts.expiresAt = None\<rparr>"
  assume nolive: "\<not> (\<exists>r\<in>set t. key r = k \<and> is_live now r)"
    and rt: "\<forall>v. d = Some v \<longrightarrow> parse (stringify v) = v"
  from nolive have ok: "fst (set_kv stringify now None t k d ?os) = Inr True"
    by (auto simp add: set_kv_ignore)
  moreover have "get parse now' (snd (set_kv stringify now None t k d ?os)) k =
       Some \<lparr>data = d, counter = 0, expiresAt = None, createdAt = now * 1000, updatedAt = now * 1000\<rparr>"
    by (rule get_after_set [OF ok _ _ rt]) simp_all
  ultimately show "fst (set_kv stringify now None t k d ?os) = Inr True
   \<and> get parse now' (snd (set_kv stringify now None t k d ?os)) k =
       Some \<lparr>data = d, counter = 0, expiresAt = None, createdAt = now * 1000, updatedAt = now * 1000\<rparr>"
    by simp
qed

text \<open>On the example table at time 100, for the key \<open>a\<close>, whose row is expired.\<close>

theorem set_get_roundtrip_witness:
  "\<not> (\<exists>r\<in>set ex_table. key r = ''a'' \<and> is_live 100 r)
   \<and> fst (set_kv (\<lambda>s. s) 100 None ex_table ''a'' (Some ''x'')
           \<lparr>replace = None, ttl = None, opts.expiresAt = None\<rparr>) = Inr True
   \<and> get (\<lambda>s. s) 100
        (snd (set_kv (\<lambda>s. s) 100 None ex_table ''a'' (Some ''x'')
           \<lparr>replace = None, ttl = None, opts.expiresAt = None\<rparr>)) ''a'' =
       Some \<lparr>data = Some ''x'', counter = 0, expiresAt = None, createdAt = 100000, updatedAt = 100000\<rparr>"
proof -
  have a: "\<not> (\<exists>r\<in>set ex_table. key r = ''a'' \<and> is_live 100 r)"
    by (simp add: ex_table_rows row_a_def row_b_def row_c_def is_live_def)
  have rt: "\<forall>v. Some ''x'' = Some v \<longrightarrow> (\<lambda>s. s) ((\<lambda>s. s) v) = v" by simp
  from set_get_roundtrip [where t = ex_table and k = "''a''" and now = 100 and now' = 100
      and d = "Some ''x''" and stringify = "\<lambda>s. s" and parse = "\<lambda>s. s", THEN mp, OF conjI, OF a rt] a
  show ?thesis by simp
qed

text \<open>
  Claim C10. After a successful \<open>set\<close> the table has a row of the key, and the
  expiration of every row of the key is: the time of the call plus \<open>ttl\<close> when \<open>ttl\<close> is
  defined, whether or not \<open>expiresAt\<close> is; the \<open>expiresAt\<close> date in whole seconds
  (\<^verbatim>\<open>Math.floor\<close> of its milliseconds over 1000) when only \<open>expiresAt\<close> is defined; none
  when neither is.
\<close>

theorem set_expiration_precedence:
  "fst (set_kv stringify now fault t k d os) = Inr True \<longrightarrow>
     (\<exists>r\<in>set (snd (set_kv stringify now fault t k d os)). key r = k)
   \<and> (\<forall>r\<in>set (snd (set_kv stringify now fault t k d os)). key r = k \<longrightarrow>
        (\<forall>s. ttl os = Some s \<longrightarrow> expires_at r = Some (now + s))
      \<and> (\<forall>ms. ttl os = None \<and> opts.expiresAt os = Some ms \<longrightarrow> expires_at r = Some (ms div 1000))
      \<and> (ttl os = None \<and> opts.expiresAt os = None \<longrightarrow> expires_at r = None))"
proof (intro impI)
  assume ok: "fst (set_kv stringify now fault t k d os) = Inr True"
  note eq = set_kv_true(2) [OF ok]
  have only: "r = set_row stringify now k d os"
    if "r \<in> set (snd (set_kv stringify now fault t k d os))" "key r = k" for r
    using that by (auto simp: eq)
  have ex: "\<exists>r\<in>set (snd (set_kv stringify now fault t k d os)). key r = k"
    by (simp add: eq set_row_def)
  have row: "(\<forall>s. ttl os = Some s \<longrightarrow> expires_at (set_row stringify now k d os) = Some (now + s))
      \<and> (\<forall>ms. ttl os = None \<and> opts.expiresAt os = Some ms \<longrightarrow>
            expires_at (set_row stringify now k d os) = Some (ms div 1000))
      \<and> (ttl os = None \<and> opts.expiresAt os = None \<longrightarrow> expires_at (set_row stringify now k d os) = None)"
    by (simp add: set_row_def)
  from ex only row show "(\<exists>r\<in>set (snd (set_kv stringify now fault t k d os)). key r = k)
   \<and> (\<forall>r\<in>set (snd (set_kv stringify now fault t k d os)). key r = k \<longrightarrow>
        (\<forall>s. ttl os = Some s \<longrightarrow> expires_at r = Some (now + s))
      \<and> (\<forall>ms. ttl os = None \<and> opts.expiresAt os = Some ms \<longrightarrow> expires_at r = Some (ms div 1000))
      \<and> (ttl os = None \<and> opts.expiresAt os = None \<longrightarrow> expires_at r = None))"
    by metis
qed

text \<open>At time 100: both options give 160, the date 999999 ms alone gives 999, none gives null.\<close>

theorem set_expiration_precedence_witness:
  "fst (set_kv (\<lambda>s. s) 100 None ex_table ''k'' (Some ''v'')
          \<lparr>replace = None, ttl = Some 60, opts.expiresAt = Some 999999\<rparr>) = Inr True
   \<and> list_all (\<lambda>r. expires_at r = Some 160)
        (filter (\<lambda>r. key r = ''k'')
           (snd (set_kv (\<lambda>s. s) 100 None ex_table ''k'' (Some ''v'')
                  \<lparr>replace = None, ttl = Some 60, opts.expiresAt = Some 999999\<rparr>)))
   \<and> fst (set_kv (\<lambda>s. s) 100 None ex_table ''k'' (Some ''v'')
          \<lparr>replace = None, ttl = None, opts.expiresAt = Some 999999\<rparr>) = Inr True
   \<and> list_all (\<lambda>r. expires_at r = Some 999)
        (filter (\<lambda>r. key r = ''k'')
           (snd (set_kv (\<lambda>s. s) 100 None ex_table ''k'' (Some ''v'')
                  \<lparr>replace = None, ttl = None, opts.expiresAt = Some 999999\<rparr>)))
   \<and> fst (set_kv (\<lambda>s. s) 100 None ex_table ''k'' (Some ''v'')
          \<lparr>replace = None, ttl = None, opts.expiresAt = None\<rparr>) = Inr True
   \<and> list_all (\<lambda>r. expires_at r = None)
        (filter (\<lambda>r. key r = ''k'')
           (snd (set_kv (\<lambda>s. s) 100 None ex_table ''k'' (Some ''v'')
                  \<lparr>replace = None, ttl = None, opts.expiresAt = None\<rparr>)))"
proof -
  let ?both = "\<lparr>replace = None, ttl = Some 60, opts.expiresAt = Some 999999\<rparr>"
  let ?date = "\<lparr>replace = None, ttl = None, opts.expiresAt = Some 999999\<rparr>"
  let ?none = "\<lparr>replace = None, ttl = None, opts.expiresAt = None\<rparr>"
  have nolive: "\<not> (\<exists>r\<in>set ex_table. key r = ''k'' \<and> is_live 100 r)"
    by (simp add: ex_table_rows row_a_def row_b_def row_c_def)
  have ok: "fst (set_kv (\<lambda>s. s) 100 None ex_table ''k'' (Some ''v'') os) = Inr True"
    if "replace os = None" for os
    using that nolive by (auto simp add: set_kv_ignore)
  have 1: "fst (set_kv (\<lambda>s. s) 100 None ex_table ''k'' (Some ''v'') ?both) = Inr True"
    and 2: "fst (set_kv (\<lambda>s. s) 100 None ex_table ''k'' (Some ''v'') ?date) = Inr True"
    and 3: "fst (set_kv (\<lambda>s. s) 100 None ex_table ''k'' (Some ''v'') ?none) = Inr True"
    by (simp_all add: ok)
  note T = set_expiration_precedence [where stringify = "\<lambda>s. s" and now = 100 and fault = None
      and t = ex_table and k = "''k''" and d = "Some ''v''"]
  from T [where os = ?both, THEN mp, OF 1]
  have 4: "list_all (\<lambda>r. expires_at r = Some 160)
        (filter (\<lambda>r. key r = ''k'') (snd (set_kv (\<lambda>s. s) 100 None ex_table ''k'' (Some ''v'') ?both)))"
    by (simp add: list_all_iff)
  from T [where os = ?date, THEN mp, OF 2]
  have 5: "list_all (\<lambda>r. expires_at r = Some 999)
        (filter (\<lambda>r. key r = ''k'') (snd (set_kv (\<lambda>s. s) 100 None ex_table ''k'' (Some ''v'') ?date)))"
    by (simp add: list_all_iff)
  from T [where os = ?none, THEN mp, OF 3]
  have 6: "list_all (\<lambda>r. expires_at r = None)
        (filter (\<lambda>r. key r = ''k'') (snd (set_kv (\<lambda>s. s) 100 None ex_table ''k'' (Some ''v'') ?none)))"
    by (simp add: list_all_iff)
  from 1 2 3 4 5 6 show ?thesis by simp
qed

subsection \<open>Cleanup of expired rows\<close>




subsection \<open>Timestamps\<close>

text \<open>
  Claim C8, amended. A call that is not a \<open>set\<close> on \<open>k\<close> (an increment, a decrement, a
  read, a delete, a call on another key) keeps \<open>created_at\<close> of the row of \<open>k\<close> as long
  as the row is stored. A successful \<open>set\<close> on \<open>k\<close>, with or without \<open>replace\<close>, writes
  a new row whose \<open>created_at\<close> and \<open>updated_at\<close> are the time of the call. An increment
  or decrement of a live row keeps \<open>created_at\<close> and sets the stored \<open>updated_at\<close> to the
  time of the call. While the clock does not go back, every call keeps
  \<open>created_at \<le> updated_at \<le> now\<close> on every row, so it holds in every table the class
  has built from the empty one. A \<open>get\<close> changes nothing.
\<close>

theorem timestamps_invariant:
  "(\<not> writes_key c k \<longrightarrow>
      (\<forall>r'\<in>set (step stringify parse now c t). key r' = k \<longrightarrow>
         (\<exists>r\<in>set t. key r = k \<and> created_at r' = created_at r)))
   \<and> (fst (set_kv stringify now fault t k d os) = Inr True \<longrightarrow>
        (\<forall>r'\<in>set (snd (set_kv stringify now fault t k d os)). key r' = k \<longrightarrow>
           created_at r' = now \<and> updated_at r' = now))
   \<and> (wf_table t \<and> r \<in> set t \<and> is_live now r \<longrightarrow>
        (\<forall>r'\<in>set (snd (increment parse now t (key r))). key r' = key r \<longrightarrow>
           created_at r' = created_at r \<and> updated_at r' = now)
      \<and> (\<forall>r'\<in>set (snd (decrement parse now t (key r))). key r' = key r \<longrightarrow>
           created_at r' = created_at r \<and> updated_at r' = now))
   \<and> (timestamps_ok now0 t \<and> now0 \<le> now \<longrightarrow> timestamps_ok now (step stringify parse now c t))
   \<and> (sorted (map fst cs) \<longrightarrow>
        (\<forall>r\<in>set (run stringify parse cs []). created_at r \<le> updated_at r))
   \<and> step stringify parse now (Get k) t = t"
proof -
  have created: "\<not> writes_key c k \<longrightarrow>
      (\<forall>r'\<in>set (step stringify parse now c t). key r' = k \<longrightarrow>
         (\<exists>r\<in>set t. key r = k \<and> created_at r' = created_at r))"
  proof (intro impI ballI)
    fix r' assume "\<not> writes_key c k" "r' \<in> set (step stringify parse now c t)" "key r' = k"
    with step_rows [of r' stringify parse now c t]
    show "\<exists>r\<in>set t. key r = k \<and> created_at r' = created_at r" by auto
  qed
  have written: "fst (set_kv stringify now fault t k d os) = Inr True \<longrightarrow>
        (\<forall>r'\<in>set (snd (set_kv stringify now fault t k d os)). key r' = k \<longrightarrow>
           created_at r' = now \<and> updated_at r' = now)"
  proof (intro impI ballI)
    fix r' assume ok: "fst (set_kv stringify now fault t k d os) = Inr True"
      and "r' \<in> set (snd (set_kv stringify now fault t k d os))" "key r' = k"
    then have "r' = set_row stringify now k d os"
      by (auto simp: set_kv_true(2) [OF ok])
    then show "created_at r' = now \<and> updated_at r' = now" by (simp add: set_row_def)
  qed
  have counted: "wf_table t \<and> r \<in> set t \<and> is_live now r \<longrightarrow>
        (\<forall>r'\<in>set (snd (increment parse now t (key r))). key r' = key r \<longrightarrow>
           created_at r' = created_at r \<and> updated_at r' = now)
      \<and> (\<forall>r'\<in>set (snd (decrement parse now t (key r))). key r' = key r \<longrightarrow>
           created_at r' = created_at r \<and> updated_at r' = now)"
    by (auto simp: increment_def decrement_def addToCounter_hit split: if_splits
          dest: wf_table_unique)
  have inv: "timestamps_ok now0 t \<and> now0 \<le> now \<longrightarrow>
      timestamps_ok now (step stringify parse now c t)"
    using step_timestamps_ok [of now0 t now stringify parse c] by blast
  have seq: "sorted (map fst cs) \<longrightarrow>
        (\<forall>r\<in>set (run stringify parse cs []). created_at r \<le> updated_at r)"
  proof (intro impI ballI)
    fix r assume s: "sorted (map fst cs)" and r: "r \<in> set (run stringify parse cs [])"
    have "\<exists>now1. timestamps_ok now1 (run stringify parse cs [])"
    proof (cases cs)
      case Nil
      then show ?thesis by (simp add: timestamps_ok_def)
    next
      case (Cons x xs)
      with s have "sorted (fst x # map fst cs)" by simp
      moreover have "timestamps_ok (fst x) []" by (simp add: timestamps_ok_def)
      ultimately show ?thesis by (rule run_timestamps_ok [rotated])
    qed
    with r show "created_at r \<le> updated_at r" by (auto simp: timestamps_ok_def list_all_iff)
  qed
  have reads: "step stringify parse now (Get k) t = t" by simp
  show ?thesis by (intro conjI created written counted inv seq reads)
qed

text \<open>
  On the example table at time 100, for the live row of \<open>c\<close>, and for a \<open>set\<close> at 100
  followed by a \<open>set\<close> with \<open>replace\<close> at 200 on the empty table.
\<close>

theorem timestamps_invariant_witness:
  "\<not> writes_key (Increment ''c'' :: string call) ''c''
   \<and> wf_table ex_table \<and> row_c \<in> set ex_table \<and> is_live 100 row_c
   \<and> timestamps_ok 40 ex_table
   \<and> list_all (\<lambda>r'. created_at r' = 40 \<and> updated_at r' = 100)
        (filter (\<lambda>r'. key r' = ''c'') (snd (increment (\<lambda>s. s) 100 ex_table ''c'')))
   \<and> list_all (\<lambda>r'. created_at r' = 100 \<and> updated_at r' = 100)
        (filter (\<lambda>r'. key r' = ''c'')
           (snd (set_kv (\<lambda>s. s) 100 None ex_table ''c'' (Some ''x'')
                   \<lparr>replace = Some True, ttl = None, opts.expiresAt = None\<rparr>)))
   \<and> timestamps_ok 100 (step (\<lambda>s. s) (\<lambda>s. s) 100 (Increment ''c'') ex_table)
   \<and> list_all (\<lambda>r. created_at r \<le> updated_at r)
        (run (\<lambda>s. s) (\<lambda>s. s)
           [(100, Set ''k'' (Some ''v'') \<lparr>replace = None, ttl = None, opts.expiresAt = None\<rparr> None),
            (200, Set ''k'' (Some ''w'') \<lparr>replace = Some True, ttl = None, opts.expiresAt = None\<rparr> None)]
           [])"
proof -
  let ?os = "\<lparr>replace = Some True, ttl = None, opts.expiresAt = None\<rparr>"
  let ?cs = "[(100::int, Set ''k'' (Some ''v'') \<lparr>replace = None, ttl = None, opts.expiresAt = None\<rparr> None),
            (200, Set ''k'' (Some ''w'') ?os None :: string call)]"
  have w: "\<not> writes_key (Increment ''c'' :: string call) ''c''" by simp
  have c: "wf_table ex_table \<and> row_c \<in> set ex_table \<and> is_live 100 row_c"
    using wf_ex_table by (simp add: ex_table_rows row_c_def is_live_def)
  have kc: "key row_c = ''c''" "created_at row_c = 40" by (simp_all add: row_c_def)
  have ok: "fst (set_kv (\<lambda>s. s) 100 None ex_table ''c'' (Some ''x'') ?os) = Inr True"
    by (simp add: set_kv_replace)
  have ts: "timestamps_ok 40 ex_table \<and> (40::int) \<le> 100"
    by (simp add: timestamps_ok_def ex_table_rows row_a_def row_b_def row_c_def)
  have so: "sorted (map fst ?cs)" by simp
  note T = timestamps_invariant [where c = "Increment ''c''" and k = "''c''" and t = ex_table
      and now = 100 and now0 = 40 and r = row_c and fault = None and d = "Some ''x''" and os = ?os
      and stringify = "\<lambda>s. s" and parse = "\<lambda>s. s" and cs = ?cs]
  from T c kc have 1: "list_all (\<lambda>r'. created_at r' = 40 \<and> updated_at r' = 100)
        (filter (\<lambda>r'. key r' = ''c'') (snd (increment (\<lambda>s. s) 100 ex_table ''c'')))"
    by (simp add: list_all_iff)
  from T ok have 2: "list_all (\<lambda>r'. created_at r' = 100 \<and> updated_at r' = 100)
        (filter (\<lambda>r'. key r' = ''c'')
           (snd (set_kv (\<lambda>s. s) 100 None ex_table ''c'' (Some ''x'') ?os)))"
    by (simp add: list_all_iff)
  from T ts have 3: "timestamps_ok 100 (step (\<lambda>s. s) (\<lambda>s. s) 100 (Increment ''c'') ex_table)"
    by blast
  from T so have 4: "list_all (\<lambda>r. created_at r \<le> updated_at r) (run (\<lambda>s. s) (\<lambda>s. s) ?cs [])"
    unfolding list_all_iff by blast
  from w c ts 1 2 3 4 show ?thesis by simp
qed

text \<open>
  Claim C8 as stated fails for \<open>set\<close> with \<open>replace\<close>: \<^verbatim>\<open>REPLACE INTO\<close> deletes the row
  and inserts a new one, whose \<open>created_at\<close> is the default. A key set at time 100 has
  \<open>createdAt = 100000\<close>; after a \<open>set\<close> with \<open>replace\<close> at time 200 it has
  \<open>createdAt = 200000\<close>.
\<close>

theorem replace_resets_createdAt_counterexample:
  "map_option createdAt
     (get (\<lambda>s. s) 200
        (run (\<lambda>s. s) (\<lambda>s. s)
           [(100, Set ''k'' (Some ''v'') \<lparr>replace = None, ttl = None, opts.expiresAt = None\<rparr> None)]
           []) ''k'') = Some 100000
   \<and> map_option createdAt
     (get (\<lambda>s. s) 200
        (run (\<lambda>s. s) (\<lambda>s. s)
           [(100, Set ''k'' (Some ''v'') \<lparr>replace = None, ttl = None, opts.expiresAt = None\<rparr> None),
            (200, Set ''k'' (Some ''w'') \<lparr>replace = Some True, ttl = None, opts.expiresAt = None\<rparr> None)]
           []) ''k'') = Some 200000"
  by (simp add: set_kv_def statements_insertIgnore_def statements_insertReplace_def
      cleanup_expired_on_insert_def inserted_row_def is_expired_def
      get_def statements_select_def is_live_def returning_def format_def)

end
